theory Spec2Isabelle
  imports Main "HOL-Library.Word"
begin

section \<open>Paths (path.go)\<close>

text \<open>
  A \<open>JsonPath\<close> is a Go slice of \<open>interface{}\<close> values. The decoder only ever stores
  strings (object keys) and ints (array indices) in its own path, but the argument of
  \<open>SeekTo\<close> is an arbitrary \<open>...interface{}\<close>, so a third constructor stands for a value
  of any other dynamic type. Go's \<open>int\<close> is taken at 64 bits; \<open>+\<close> and \<open>-\<close> on it wrap.
\<close>

type_synonym go_int = "64 word"

datatype segment = Key string | Index go_int | Other nat

type_synonym JsonPath = "segment list"

datatype jsonContext = none | objKey | objValue | arrValue

text \<open>A Go call either returns or panics.\<close>

datatype 'a go = Panics | Returns 'a

definition push :: "JsonPath \<Rightarrow> segment \<Rightarrow> JsonPath" where
  "push p n = p @ [n]"

text \<open>\<open>(*p)[:len(*p)-1]\<close> panics on the empty slice (slice bounds out of range).\<close>

definition pop :: "JsonPath \<Rightarrow> JsonPath go" where
  "pop p = (if length p = 0 then Panics else Returns (take (length p - 1) p))"

text \<open>
  \<open>incTop\<close> panics on the empty slice (index out of range) and when the top is not
  an int (failed type assertion).
\<close>

definition incTop :: "JsonPath \<Rightarrow> JsonPath go" where
  "incTop p =
     (if length p = 0 then Panics
      else (case p ! (length p - 1) of
              Index i \<Rightarrow> Returns (p[length p - 1 := Index (i + 1)])
            | _ \<Rightarrow> Panics))"

definition nameTop :: "JsonPath \<Rightarrow> string \<Rightarrow> JsonPath go" where
  "nameTop p n =
     (if length p = 0 then Panics else Returns (p[length p - 1 := Key n]))"

definition inferContext :: "JsonPath \<Rightarrow> jsonContext go" where
  "inferContext p =
     (if length p = 0 then Returns none
      else (case p ! (length p - 1) of
              Key _ \<Rightarrow> Returns objKey
            | Index _ \<Rightarrow> Returns arrValue
            | Other _ \<Rightarrow> Panics))"

text \<open>
  \<open>Equal\<close>: different lengths give false; otherwise the elements are compared in
  order with Go's interface inequality, and the first difference gives false.
\<close>

fun Equal_from :: "JsonPath \<Rightarrow> JsonPath \<Rightarrow> bool" where
  "Equal_from [] o' = True"
| "Equal_from (v # p) [] = False"
| "Equal_from (v # p) (w # o') = (if v \<noteq> w then False else Equal_from p o')"

definition Equal :: "JsonPath \<Rightarrow> JsonPath \<Rightarrow> bool" where
  "Equal p o' = (if length p \<noteq> length o' then False else Equal_from p o')"

section \<open>The token source (encoding/json, external)\<close>

text \<open>
  \<open>json.Token\<close> is \<open>interface{}\<close>: a \<open>json.Delim\<close> (a rune), a bool, a float64, a
  \<open>json.Number\<close>, a string, or nil for JSON null. Numbers are kept as their literal
  text; their value plays no part in path tracking. \<open>KeyString\<close> is the type that
  decoder.go declares for object keys.
\<close>

datatype token =
    Delim char
  | TBool bool
  | TFloat64 string
  | TNumber string
  | TString string
  | TNil
  | KeyString string

datatype error = EOF | OtherError string

text \<open>
  The embedded \<open>json.Decoder\<close> is modelled by the tokens it has yet to yield, from
  a finite input, and by the error it reports once they have run out: \<open>io.EOF\<close> at
  the end of the input, another error when what is left of the input is malformed.
\<close>

record Decoder =
  tokens :: "token list"
  final :: error
  path :: JsonPath
  ctx :: jsonContext

definition NewDecoder :: "token list \<Rightarrow> error \<Rightarrow> Decoder" where
  "NewDecoder ts e = \<lparr>tokens = ts, final = e, path = [], ctx = none\<rparr>"

definition json_Token :: "Decoder \<Rightarrow> token \<times> error option \<times> Decoder" where
  "json_Token d =
     (case tokens d of
        [] \<Rightarrow> (TNil, Some (final d), d)
      | t # ts \<Rightarrow> (t, None, d\<lparr>tokens := ts\<rparr>))"

text \<open>
  \<open>More\<close> peeks at the next byte of the input: it is true when there is one and it is
  neither \<open>]\<close> nor \<open>}\<close>. Once the tokens have run out there is no byte at the end of
  the input, and there is one, which closes nothing, when malformed input is left.
\<close>

definition json_More :: "Decoder \<Rightarrow> bool" where
  "json_More d =
     (case tokens d of
        [] \<Rightarrow> final d \<noteq> EOF
      | t # ts \<Rightarrow> t \<noteq> Delim CHR '']'' \<and> t \<noteq> Delim CHR ''}'')"

text \<open>
  \<open>json.Decoder.Decode\<close> reads one whole value: one token for a primitive, or
  everything up to the delimiter that closes the one it starts with. The decoded value is
  represented by the tokens that spell it.
\<close>

fun take_value :: "nat \<Rightarrow> token list \<Rightarrow> token list \<Rightarrow> (token list \<times> token list) option" where
  "take_value depth acc [] = None"
| "take_value depth acc (t # ts) =
     (if t = Delim CHR ''['' \<or> t = Delim CHR ''{'' then take_value (Suc depth) (acc @ [t]) ts
      else if t = Delim CHR '']'' \<or> t = Delim CHR ''}'' then
        (case depth of
           0 \<Rightarrow> None
         | Suc 0 \<Rightarrow> Some (acc @ [t], ts)
         | Suc (Suc k) \<Rightarrow> take_value (Suc k) (acc @ [t]) ts)
      else if depth = 0 then Some (acc @ [t], ts)
      else take_value depth (acc @ [t]) ts)"

definition json_Decode :: "Decoder \<Rightarrow> token list \<times> error option \<times> Decoder" where
  "json_Decode d =
     (case take_value 0 [] (tokens d) of
        None \<Rightarrow> ([], Some (if tokens d = [] then final d else OtherError ''invalid value''), d)
      | Some (v, rest) \<Rightarrow> (v, None, d\<lparr>tokens := rest\<rparr>))"

section \<open>The decoder (decoder.go)\<close>

definition Token :: "Decoder \<Rightarrow> (token \<times> error option \<times> Decoder) go" where
  "Token d0 =
     (case json_Token d0 of
        (t, Some err, d) \<Rightarrow> Returns (t, Some err, d)
      | (t, None, d) \<Rightarrow>
          (case t of
             TNil \<Rightarrow>
               (case ctx d of
                  objValue \<Rightarrow> Returns (t, None, d\<lparr>ctx := objKey\<rparr>)
                | arrValue \<Rightarrow>
                    (case incTop (path d) of
                       Panics \<Rightarrow> Panics
                     | Returns p \<Rightarrow> Returns (t, None, d\<lparr>path := p\<rparr>))
                | _ \<Rightarrow> Returns (t, None, d))
           | Delim c \<Rightarrow>
               (if c = CHR ''{'' then
                  (case (if ctx d = arrValue then incTop (path d) else Returns (path d)) of
                     Panics \<Rightarrow> Panics
                   | Returns p \<Rightarrow>
                       Returns (t, None, d\<lparr>path := push p (Key ''''), ctx := objKey\<rparr>))
                else if c = CHR ''}'' then
                  (case pop (path d) of
                     Panics \<Rightarrow> Panics
                   | Returns p \<Rightarrow>
                       (case inferContext p of
                          Panics \<Rightarrow> Panics
                        | Returns c' \<Rightarrow> Returns (t, None, d\<lparr>path := p, ctx := c'\<rparr>)))
                else if c = CHR ''['' then
                  (case (if ctx d = arrValue then incTop (path d) else Returns (path d)) of
                     Panics \<Rightarrow> Panics
                   | Returns p \<Rightarrow>
                       Returns (t, None, d\<lparr>path := push p (Index (- 1)), ctx := arrValue\<rparr>))
                else if c = CHR '']'' then
                  (case pop (path d) of
                     Panics \<Rightarrow> Panics
                   | Returns p \<Rightarrow>
                       (case inferContext p of
                          Panics \<Rightarrow> Panics
                        | Returns c' \<Rightarrow> Returns (t, None, d\<lparr>path := p, ctx := c'\<rparr>)))
                else Returns (t, None, d))
           | TFloat64 _ \<Rightarrow>
               (case ctx d of
                  objValue \<Rightarrow> Returns (t, None, d\<lparr>ctx := objKey\<rparr>)
                | arrValue \<Rightarrow>
                    (case incTop (path d) of
                       Panics \<Rightarrow> Panics
                     | Returns p \<Rightarrow> Returns (t, None, d\<lparr>path := p\<rparr>))
                | _ \<Rightarrow> Returns (t, None, d))
           | TNumber _ \<Rightarrow>
               (case ctx d of
                  objValue \<Rightarrow> Returns (t, None, d\<lparr>ctx := objKey\<rparr>)
                | arrValue \<Rightarrow>
                    (case incTop (path d) of
                       Panics \<Rightarrow> Panics
                     | Returns p \<Rightarrow> Returns (t, None, d\<lparr>path := p\<rparr>))
                | _ \<Rightarrow> Returns (t, None, d))
           | TBool _ \<Rightarrow>
               (case ctx d of
                  objValue \<Rightarrow> Returns (t, None, d\<lparr>ctx := objKey\<rparr>)
                | arrValue \<Rightarrow>
                    (case incTop (path d) of
                       Panics \<Rightarrow> Panics
                     | Returns p \<Rightarrow> Returns (t, None, d\<lparr>path := p\<rparr>))
                | _ \<Rightarrow> Returns (t, None, d))
           | TString s \<Rightarrow>
               (case ctx d of
                  objKey \<Rightarrow>
                    (case nameTop (path d) s of
                       Panics \<Rightarrow> Panics
                     | Returns p \<Rightarrow>
                         Returns (KeyString s, None, d\<lparr>path := p, ctx := objValue\<rparr>))
                | objValue \<Rightarrow> Returns (t, None, d\<lparr>ctx := objKey\<rparr>)
                | arrValue \<Rightarrow>
                    (case incTop (path d) of
                       Panics \<Rightarrow> Panics
                     | Returns p \<Rightarrow> Returns (t, None, d\<lparr>path := p\<rparr>))
                | none \<Rightarrow> Returns (t, None, d))
           | KeyString _ \<Rightarrow> Returns (t, None, d)))"


text \<open>A call of \<open>Token\<close> that yields a token takes it from the input.\<close>

lemma Token_tokens:
  "Token d = Returns (t, e, d') \<Longrightarrow>
     (case e of None \<Rightarrow> \<exists>t0. tokens d = t0 # tokens d'
      | Some err \<Rightarrow> tokens d = [] \<and> d' = d \<and> err = final d \<and> t = TNil)"
  by (auto simp: Token_def json_Token_def
           split: list.splits token.splits jsonContext.splits go.splits if_splits)

lemma Token_consumes:
  "Token d = Returns (t, None, d') \<Longrightarrow> length (tokens d') < length (tokens d)"
  using Token_tokens [of d t None d'] by auto

text \<open>
  The loop of \<open>SeekTo\<close>. It ends because the input is finite and every turn that does
  not return consumes a token.
\<close>

function seek_loop :: "Decoder \<Rightarrow> JsonPath \<Rightarrow> (bool \<times> error option \<times> Decoder) go" where
  "seek_loop w p =
     (if Equal (path w) p then Returns (True, None, w)
      else (case Token w of
              Panics \<Rightarrow> Panics
            | Returns (t, Some err, w') \<Rightarrow>
                (if err = EOF then Returns (False, None, w') else Returns (False, Some err, w'))
            | Returns (t, None, w') \<Rightarrow> seek_loop w' p))"
  by pat_completeness auto
termination
  by (relation "measure (\<lambda>(w, p). length (tokens w))") (auto dest: Token_consumes)

declare seek_loop.simps [simp del]

text \<open>
  \<open>SeekTo\<close> writes into the slice it is given, so the slice as it is left after the call
  is part of the result.
\<close>

definition SeekTo :: "Decoder \<Rightarrow> JsonPath \<Rightarrow> (bool \<times> error option \<times> Decoder \<times> JsonPath) go" where
  "SeekTo w p =
     (if length p = 0 then Returns (length (path w) = 0, None, w, p)
      else
        (let last = length p - 1;
             p' = (case p ! last of Index i \<Rightarrow> p[last := Index (i - 1)] | _ \<Rightarrow> p)
         in (case seek_loop w p' of
               Panics \<Rightarrow> Panics
             | Returns (found, err, w') \<Rightarrow> Returns (found, err, w', p'))))"

definition Decode :: "Decoder \<Rightarrow> (token list \<times> error option \<times> Decoder) go" where
  "Decode d =
     (case (case ctx d of
              objValue \<Rightarrow> Returns (d\<lparr>ctx := objKey\<rparr>)
            | arrValue \<Rightarrow>
                (case incTop (path d) of
                   Panics \<Rightarrow> Panics
                 | Returns p \<Rightarrow> Returns (d\<lparr>path := p\<rparr>))
            | _ \<Rightarrow> Returns d) of
        Panics \<Rightarrow> Panics
      | Returns d' \<Rightarrow> Returns (json_Decode d'))"

text \<open>\<open>Path\<close> returns a copy of the decoder's path.\<close>

definition Path :: "Decoder \<Rightarrow> JsonPath" where
  "Path d = take (length (path d)) (path d)"


subsection \<open>Scan\<close>

text \<open>
  The trie of \<open>PathActions\<close> is not part of decoder.go. \<open>Scan\<close> uses it only through
  \<open>ext.node.match(relPath)\<close>, which gives a node or nothing, and through the node's
  \<open>action\<close>, which may be nil. Both are parameters here. An action is handed the
  decoder and may navigate or decode with it; being a closure it may also update
  variables of its caller, which are the state \<open>'u\<close>.
\<close>

type_synonym 'u DecodeAction = "'u \<Rightarrow> Decoder \<Rightarrow> ('u \<times> Decoder) go"

record 'u pathNode =
  action :: "'u DecodeAction option"

type_synonym 'u matcher = "JsonPath \<Rightarrow> 'u pathNode option"

text \<open>
  The loop of \<open>Scan\<close> has two entry points: the top of the \<open>for\<close>, which advances by
  one token, and the label \<open>match\<close>, which does not. An action need not consume anything,
  so the loop may run forever: \<open>None\<close> is a call that does not return.
\<close>

datatype scan_label = Advance | Match

partial_function (option) scan_loop ::
  "'u matcher \<Rightarrow> JsonPath \<Rightarrow> scan_label \<Rightarrow> bool \<Rightarrow> 'u \<Rightarrow> Decoder \<Rightarrow>
     (bool \<times> error option \<times> 'u \<times> Decoder) go option" where
  "scan_loop ext rootPath l matched u d =
     (case l of
        Advance \<Rightarrow>
          (case Token d of
             Panics \<Rightarrow> Some Panics
           | Returns (t, Some err, d') \<Rightarrow> Some (Returns (matched, Some err, u, d'))
           | Returns (t, None, d') \<Rightarrow> scan_loop ext rootPath Match matched u d')
      | Match \<Rightarrow>
          (let path' = Path d in
           if length path' > length rootPath then
             (let relPath = drop (length rootPath) path' in
              case ext relPath of
                None \<Rightarrow> scan_loop ext rootPath Advance matched u d
              | Some node \<Rightarrow>
                  (case action node of
                     None \<Rightarrow> scan_loop ext rootPath Advance matched u d
                   | Some act \<Rightarrow>
                       (case act u d of
                          Panics \<Rightarrow> Some Panics
                        | Returns (u', d') \<Rightarrow>
                            (if ctx d' = arrValue \<and> json_More d'
                             then scan_loop ext rootPath Match True u' d'
                             else scan_loop ext rootPath Advance True u' d'))))
           else Some (Returns (matched, None, u, d))))"

declare scan_loop.simps [code]

definition Scan ::
  "'u matcher \<Rightarrow> 'u \<Rightarrow> Decoder \<Rightarrow> (bool \<times> error option \<times> 'u \<times> Decoder) go option" where
  "Scan ext u d =
     (let rootPath = Path d in
      case inferContext rootPath of
        Panics \<Rightarrow> Some Panics
      | Returns c \<Rightarrow>
          (if c = arrValue then
             (case incTop rootPath of
                Panics \<Rightarrow> Some Panics
              | Returns rootPath' \<Rightarrow> scan_loop ext rootPath' Advance False u d)
           else scan_loop ext rootPath Advance False u d))"




text \<open>The tokens of the number / bool / null row of the tracker's transition table.\<close>

definition primitive :: "token \<Rightarrow> bool" where
  "primitive t =
     (case t of TNil \<Rightarrow> True | TBool _ \<Rightarrow> True | TFloat64 _ \<Rightarrow> True | TNumber _ \<Rightarrow> True
      | _ \<Rightarrow> False)"

text \<open>A \<open>PathActions\<close> with no registration: no relative path has a node.\<close>

definition no_actions :: "unit matcher" where
  "no_actions relPath = None"




section \<open>Slices in memory\<close>








text \<open>An indexed assignment \<open>p[i] = v\<close>, as the holder of a slice may write it.\<close>

definition store :: "JsonPath \<Rightarrow> nat \<Rightarrow> segment \<Rightarrow> JsonPath go" where
  "store p i v = (if i < length p then Returns (p[i := v]) else Panics)"



text \<open>
  The decoder changes its path by \<open>push\<close>, \<open>pop\<close>, \<open>incTop\<close> and \<open>nameTop\<close> only, and
  reads it otherwise; the holder of a snapshot may also assign to its elements. A run is
  a sequence of such operations, each on the decoder's path or on the snapshot, and of
  further calls of \<open>Path\<close>.
\<close>

datatype path_op = Push segment | Pop | IncTop | NameTop string | Store nat segment

fun apply_op :: "path_op \<Rightarrow> JsonPath \<Rightarrow> JsonPath go" where
  "apply_op (Push n) p = Returns (push p n)"
| "apply_op Pop p = pop p"
| "apply_op IncTop p = incTop p"
| "apply_op (NameTop n) p = nameTop p n"
| "apply_op (Store i v) p = store p i v"

fun run_ops :: "path_op list \<Rightarrow> JsonPath \<Rightarrow> JsonPath go" where
  "run_ops [] p = Returns p"
| "run_ops (x # xs) p = (case apply_op x p of Panics \<Rightarrow> Panics | Returns p' \<Rightarrow> run_ops xs p')"








text \<open>
  The path operations that \<open>Token\<close> performs for a token of the source in a given
  context, in the order of decoder.go, and the one that \<open>Decode\<close> performs.
\<close>

definition token_path_ops :: "token \<Rightarrow> jsonContext \<Rightarrow> path_op list" where
  "token_path_ops t c =
     (case t of
        Delim x \<Rightarrow>
          (if x = CHR ''{'' then (if c = arrValue then [IncTop] else []) @ [Push (Key '''')]
           else if x = CHR ''}'' then [Pop]
           else if x = CHR ''['' then (if c = arrValue then [IncTop] else []) @ [Push (Index (- 1))]
           else if x = CHR '']'' then [Pop]
           else [])
      | TString s \<Rightarrow> (if c = objKey then [NameTop s] else if c = arrValue then [IncTop] else [])
      | KeyString s \<Rightarrow> []
      | _ \<Rightarrow> (if c = arrValue then [IncTop] else []))"

definition decode_path_ops :: "jsonContext \<Rightarrow> path_op list" where
  "decode_path_ops c = (if c = arrValue then [IncTop] else [])"

section \<open>Basic facts about paths\<close>

lemma Equal_from_iff: "length p = length q \<Longrightarrow> Equal_from p q \<longleftrightarrow> p = q"
  by (induction p q rule: Equal_from.induct) auto

lemma Equal_iff: "Equal p q \<longleftrightarrow> p = q"
  by (auto simp: Equal_def Equal_from_iff)

lemma Path_eq: "Path d = path d"
  by (simp add: Path_def)

lemma pop_snoc: "pop (p @ [s]) = Returns p"
  by (simp add: pop_def)

lemma incTop_snoc: "incTop (p @ [Index i]) = Returns (p @ [Index (i + 1)])"
  by (simp add: incTop_def)

lemma nameTop_snoc: "nameTop (p @ [s]) n = Returns (p @ [Key n])"
  by (simp add: nameTop_def)

lemma inferContext_simps:
  "inferContext [] = Returns none"
  "inferContext (p @ [Key k]) = Returns objKey"
  "inferContext (p @ [Index i]) = Returns arrValue"
  "inferContext (p @ [Other n]) = Panics"
  by (simp_all add: inferContext_def)

section \<open>The path tracker\<close>

text \<open>
  C4. An object-start token increments the top index when the context is \<open>arrValue\<close>
  (ExpectArrayValue), pushes the placeholder key \<open>""\<close> and sets the context to \<open>objKey\<close>
  (ExpectKey). An array-start token increments in the same way, pushes the index \<open>-1\<close> and
  sets the context to \<open>arrValue\<close>. An object-end or array-end token pops the top segment
  and the context becomes the one of the new top: \<open>none\<close> (Start) for the empty path,
  \<open>objKey\<close> for a key, \<open>arrValue\<close> for an index.
\<close>

theorem Token_delimiters:
  "Token (d\<lparr>tokens := Delim CHR ''{'' # ts, path := p @ [Index i], ctx := arrValue\<rparr>) =
     Returns (Delim CHR ''{'', None,
              d\<lparr>tokens := ts, path := p @ [Index (i + 1), Key ''''], ctx := objKey\<rparr>)
   \<and> (c \<noteq> arrValue \<longrightarrow>
        Token (d\<lparr>tokens := Delim CHR ''{'' # ts, path := q, ctx := c\<rparr>) =
          Returns (Delim CHR ''{'', None, d\<lparr>tokens := ts, path := q @ [Key ''''], ctx := objKey\<rparr>))
   \<and> Token (d\<lparr>tokens := Delim CHR ''['' # ts, path := p @ [Index i], ctx := arrValue\<rparr>) =
       Returns (Delim CHR ''['', None,
                d\<lparr>tokens := ts, path := p @ [Index (i + 1), Index (- 1)], ctx := arrValue\<rparr>)
   \<and> (c \<noteq> arrValue \<longrightarrow>
        Token (d\<lparr>tokens := Delim CHR ''['' # ts, path := q, ctx := c\<rparr>) =
          Returns (Delim CHR ''['', None,
                   d\<lparr>tokens := ts, path := q @ [Index (- 1)], ctx := arrValue\<rparr>))
   \<and> (e = CHR ''}'' \<or> e = CHR '']'' \<longrightarrow>
        Token (d\<lparr>tokens := Delim e # ts, path := [s]\<rparr>) =
          Returns (Delim e, None, d\<lparr>tokens := ts, path := [], ctx := none\<rparr>)
        \<and> Token (d\<lparr>tokens := Delim e # ts, path := p @ [Key k, s]\<rparr>) =
          Returns (Delim e, None, d\<lparr>tokens := ts, path := p @ [Key k], ctx := objKey\<rparr>)
        \<and> Token (d\<lparr>tokens := Delim e # ts, path := p @ [Index i, s]\<rparr>) =
          Returns (Delim e, None, d\<lparr>tokens := ts, path := p @ [Index i], ctx := arrValue\<rparr>))"
proof -
  have pop2: "pop (p @ [x, s]) = Returns (p @ [x])" for x
    using pop_snoc [of "p @ [x]" s] by simp
  have pop1: "pop [s] = Returns []"
    using pop_snoc [of "[]" s] by simp
  show ?thesis
    by (auto simp: Token_def json_Token_def push_def incTop_snoc pop1 pop2 inferContext_simps)
qed

theorem Token_delimiters_witness:
  "objValue \<noteq> arrValue
   \<and> Token \<lparr>tokens = [Delim CHR ''['', TNil], final = EOF, path = [Key ''a''], ctx = objValue\<rparr> =
       Returns (Delim CHR ''['', None,
                \<lparr>tokens = [TNil], final = EOF, path = [Key ''a'', Index (- 1)], ctx = arrValue\<rparr>)
   \<and> Token \<lparr>tokens = [Delim CHR ''{'', TNil], final = EOF, path = [Key ''a''], ctx = objValue\<rparr> =
       Returns (Delim CHR ''{'', None,
                \<lparr>tokens = [TNil], final = EOF, path = [Key ''a'', Key ''''], ctx = objKey\<rparr>)
   \<and> Token \<lparr>tokens = [Delim CHR '']'', TNil], final = EOF, path = [Index 3, Index 0],
              ctx = arrValue\<rparr> =
       Returns (Delim CHR '']'', None,
                \<lparr>tokens = [TNil], final = EOF, path = [Index 3], ctx = arrValue\<rparr>)"
  using Token_delimiters [where d = "\<lparr>tokens = [], final = EOF, path = [], ctx = arrValue\<rparr>"
      and ts = "[TNil]" and c = objValue and q = "[Key ''a'']" and e = "CHR '']''" and p = "[]"
      and i = 3 and s = "Index 0"]
  by simp

text \<open>
  C5. A string token consumed while the context is \<open>objKey\<close> (ExpectKey) renames the top
  segment to the string's text, sets the context to \<open>objValue\<close> (ExpectObjectValue), and is
  returned as a \<open>KeyString\<close>, which is never equal to a token of type string, whatever the
  texts.
\<close>

theorem Token_key_string:
  "Token (d\<lparr>tokens := TString s # ts, path := p @ [x], ctx := objKey\<rparr>) =
     Returns (KeyString s, None, d\<lparr>tokens := ts, path := p @ [Key s], ctx := objValue\<rparr>)
   \<and> KeyString s \<noteq> TString s'"
  by (simp add: Token_def json_Token_def nameTop_snoc)

text \<open>
  C7. Before it delegates to the underlying decoder, \<open>Decode\<close> turns the context
  \<open>objValue\<close> (ExpectObjectValue) into \<open>objKey\<close> (ExpectKey) and, in the context \<open>arrValue\<close>
  (ExpectArrayValue), increments the top index; the underlying decode changes neither path
  nor context, whatever value it consumes. The path and context left by \<open>Decode\<close> are
  those left by \<open>Token\<close> on a number, bool or null token.
\<close>

lemma json_Decode_frame:
  "json_Decode d = (v, e, d') \<Longrightarrow> path d' = path d \<and> ctx d' = ctx d \<and> final d' = final d"
  by (auto simp: json_Decode_def split: option.splits)

theorem Decode_bookkeeping:
  "Decode (d\<lparr>ctx := objValue\<rparr>) = Returns (json_Decode (d\<lparr>ctx := objKey\<rparr>))
   \<and> Decode (d\<lparr>path := p @ [Index i], ctx := arrValue\<rparr>) =
       Returns (json_Decode (d\<lparr>path := p @ [Index (i + 1)], ctx := arrValue\<rparr>))
   \<and> Decode (d\<lparr>ctx := objKey\<rparr>) = Returns (json_Decode (d\<lparr>ctx := objKey\<rparr>))
   \<and> Decode (d\<lparr>ctx := none\<rparr>) = Returns (json_Decode (d\<lparr>ctx := none\<rparr>))
   \<and> path (snd (snd (json_Decode d))) = path d
   \<and> ctx (snd (snd (json_Decode d))) = ctx d
   \<and> (primitive t \<longrightarrow>
        (case (Token (d\<lparr>tokens := t # ts\<rparr>), Decode d) of
           (Panics, Panics) \<Rightarrow> True
         | (Returns (t', e, d1), Returns (v, e', d2)) \<Rightarrow>
             t' = t \<and> e = None \<and> path d1 = path d2 \<and> ctx d1 = ctx d2
         | _ \<Rightarrow> False))"
proof -
  have frame: "path (snd (snd (json_Decode d'))) = path d' \<and>
               ctx (snd (snd (json_Decode d'))) = ctx d'" for d'
    using json_Decode_frame [of d'] by (cases "json_Decode d'") auto
  have prim: "primitive t \<Longrightarrow>
        (case (Token (d\<lparr>tokens := t # ts\<rparr>), Decode d) of
           (Panics, Panics) \<Rightarrow> True
         | (Returns (t', e, d1), Returns (v, e', d2)) \<Rightarrow>
             t' = t \<and> e = None \<and> path d1 = path d2 \<and> ctx d1 = ctx d2
         | _ \<Rightarrow> False)"
    by (cases t; cases "ctx d"; cases "incTop (path d)")
       (auto simp: primitive_def Token_def json_Token_def Decode_def split: prod.splits
             dest!: json_Decode_frame)
  have dec: "Decode (d\<lparr>ctx := objValue\<rparr>) = Returns (json_Decode (d\<lparr>ctx := objKey\<rparr>))"
    "Decode (d\<lparr>path := p @ [Index i], ctx := arrValue\<rparr>) =
       Returns (json_Decode (d\<lparr>path := p @ [Index (i + 1)], ctx := arrValue\<rparr>))"
    "Decode (d\<lparr>ctx := objKey\<rparr>) = Returns (json_Decode (d\<lparr>ctx := objKey\<rparr>))"
    "Decode (d\<lparr>ctx := none\<rparr>) = Returns (json_Decode (d\<lparr>ctx := none\<rparr>))"
    by (cases d; simp add: Decode_def incTop_snoc)+
  show ?thesis
    using frame [of d, THEN conjunct1] frame [of d, THEN conjunct2] prim dec
    by (intro conjI impI) assumption+
qed

theorem Decode_bookkeeping_witness:
  "primitive (TBool True)
   \<and> Decode \<lparr>tokens = [Delim CHR ''{'', TString ''b'', TNil, Delim CHR ''}'', Delim CHR '']''],
              final = EOF, path = [Index 2], ctx = arrValue\<rparr> =
       Returns ([Delim CHR ''{'', TString ''b'', TNil, Delim CHR ''}''], None,
                \<lparr>tokens = [Delim CHR '']''], final = EOF, path = [Index 3], ctx = arrValue\<rparr>)
   \<and> Token \<lparr>tokens = [TBool True, Delim CHR '']''], final = EOF, path = [Index 2],
              ctx = arrValue\<rparr> =
       Returns (TBool True, None,
                \<lparr>tokens = [Delim CHR '']''], final = EOF, path = [Index 3], ctx = arrValue\<rparr>)"
proof -
  have h: "primitive (TBool True)"
    by (simp add: primitive_def)
  have tok: "Token \<lparr>tokens = [TBool True, Delim CHR '']''], final = EOF, path = [Index 2],
                    ctx = arrValue\<rparr> =
       Returns (TBool True, None,
                \<lparr>tokens = [Delim CHR '']''], final = EOF, path = [Index 3], ctx = arrValue\<rparr>)"
    by (simp add: Token_def json_Token_def incTop_def)
  show ?thesis
    using h tok
      Decode_bookkeeping [where d = "\<lparr>tokens = [Delim CHR ''{'', TString ''b'', TNil,
          Delim CHR ''}'', Delim CHR '']''], final = EOF, path = [Index 2], ctx = arrValue\<rparr>"
        and p = "[]" and i = 2 and t = "TBool True" and ts = "[Delim CHR '']'']"]
    by (simp add: json_Decode_def)
qed

section \<open>Seeking\<close>

lemma Token_final:
  "Token d = Returns (t, e, d') \<Longrightarrow> final d' = final d"
  by (auto simp: Token_def json_Token_def
           split: list.splits token.splits jsonContext.splits go.splits if_splits)

lemma seek_loop_here: "seek_loop w (path w) = Returns (True, None, w)"
  by (subst seek_loop.simps) (simp add: Equal_iff)

lemma seek_loop_eof:
  "tokens w = [] \<Longrightarrow> path w \<noteq> p \<Longrightarrow>
     seek_loop w p = Returns (False, if final w = EOF then None else Some (final w), w)"
  by (subst seek_loop.simps) (simp add: Equal_iff Token_def json_Token_def)

lemma seek_loop_step:
  "path w \<noteq> p \<Longrightarrow> Token w = Returns (t, None, w') \<Longrightarrow> seek_loop w p = seek_loop w' p"
  by (subst seek_loop.simps) (simp add: Equal_iff)

lemma seek_loop_panics:
  "path w \<noteq> p \<Longrightarrow> Token w = Panics \<Longrightarrow> seek_loop w p = Panics"
  by (subst seek_loop.simps) (simp add: Equal_iff)

text \<open>
  What the loop returns: either it found the target, with no error, or it ran out of
  tokens, and then the error is the source's unless that is \<open>io.EOF\<close>.
\<close>

lemma seek_loop_result:
  "seek_loop w p = Returns (found, err, w') \<Longrightarrow>
     final w' = final w \<and>
     (if found then err = None \<and> path w' = p
      else tokens w' = [] \<and> path w' \<noteq> p \<and>
           err = (if final w = EOF then None else Some (final w)))"
proof (induction w p rule: seek_loop.induct)
  case (1 w p)
  show ?case
  proof (cases "path w = p")
    case True
    with "1.prems" show ?thesis
      using seek_loop_here [of w] by auto
  next
    case ne: False
    show ?thesis
    proof (cases "Token w")
      case Panics
      with ne "1.prems" show ?thesis
        by (simp add: seek_loop_panics)
    next
      case (Returns r)
      obtain t e w1 where r: "r = (t, e, w1)" by (cases r)
      show ?thesis
      proof (cases e)
        case None
        have "seek_loop w1 p = Returns (found, err, w')"
          using seek_loop_step [OF ne, of t w1] Returns r None "1.prems" by simp
        moreover have "\<not> Equal (path w) p" using ne by (simp add: Equal_iff)
        ultimately have "final w' = final w1 \<and>
           (if found then err = None \<and> path w' = p
            else tokens w' = [] \<and> path w' \<noteq> p \<and>
                 err = (if final w1 = EOF then None else Some (final w1)))"
          using "1.IH" [of "(t, e, w1)" t "(e, w1)" e w1] Returns r None by simp
        moreover have "final w1 = final w"
          using Token_final [of w t e w1] Returns r by simp
        ultimately show ?thesis by simp
      next
        case (Some er)
        have "tokens w = [] \<and> w1 = w \<and> er = final w"
          using Token_tokens [of w t e w1] Returns r Some by simp
        then show ?thesis
          using seek_loop_eof [of w p] ne "1.prems" by (auto split: if_splits)
      qed
    qed
  qed
qed

lemma SeekTo_Index:
  "SeekTo w (p @ [Index i]) =
     (case seek_loop w (p @ [Index (i - 1)]) of
        Panics \<Rightarrow> Panics
      | Returns (found, err, w') \<Rightarrow> Returns (found, err, w', p @ [Index (i - 1)]))"
  by (simp add: SeekTo_def Let_def split: go.split)

lemma SeekTo_Key:
  "SeekTo w (p @ [Key k]) =
     (case seek_loop w (p @ [Key k]) of
        Panics \<Rightarrow> Panics
      | Returns (found, err, w') \<Rightarrow> Returns (found, err, w', p @ [Key k]))"
  by (simp add: SeekTo_def Let_def split: go.split)

text \<open>
  C8. \<open>SeekTo\<close> returns \<open>(true, nil)\<close> at once, the decoder untouched, when the match
  already holds at the call: a zero-length target succeeds exactly when the current path
  is empty, a target whose adjusted form is the current path succeeds, and a \<open>SeekTo\<close>
  that has just succeeded for a target succeeds again for it without consuming a token.
\<close>

theorem SeekTo_already_there:
  "SeekTo w [] = Returns (path w = [], None, w, [])
   \<and> SeekTo (w\<lparr>path := q @ [Index (i - 1)]\<rparr>) (q @ [Index i]) =
       Returns (True, None, w\<lparr>path := q @ [Index (i - 1)]\<rparr>, q @ [Index (i - 1)])
   \<and> SeekTo (w\<lparr>path := q @ [Key k]\<rparr>) (q @ [Key k]) =
       Returns (True, None, w\<lparr>path := q @ [Key k]\<rparr>, q @ [Key k])
   \<and> (SeekTo w p = Returns (True, None, w', p') \<longrightarrow>
        SeekTo w' p = Returns (True, None, w', p'))"
proof -
  have again: "SeekTo w' p = Returns (True, None, w', p')"
    if r: "SeekTo w p = Returns (True, None, w', p')"
  proof (cases "p = []")
    case True
    with r show ?thesis by (auto simp: SeekTo_def)
  next
    case False
    define a where "a = (case p ! (length p - 1) of
                           Index i \<Rightarrow> p[length p - 1 := Index (i - 1)] | _ \<Rightarrow> p)"
    have s: "SeekTo v p = (case seek_loop v a of Panics \<Rightarrow> Panics
               | Returns (found, err, v') \<Rightarrow> Returns (found, err, v', a))" for v
      unfolding SeekTo_def a_def Let_def using False by (simp only: length_0_conv if_False)
    from r have "seek_loop w a = Returns (True, None, w') \<and> p' = a"
      unfolding s by (auto split: go.splits)
    then have "path w' = a" "p' = a"
      using seek_loop_result [of w a True None w'] by auto
    then show ?thesis
      unfolding s using seek_loop_here [of w'] by simp
  qed
  have "SeekTo w [] = Returns (path w = [], None, w, [])"
    by (simp add: SeekTo_def)
  moreover have "SeekTo (w\<lparr>path := q @ [Index (i - 1)]\<rparr>) (q @ [Index i]) =
       Returns (True, None, w\<lparr>path := q @ [Index (i - 1)]\<rparr>, q @ [Index (i - 1)])"
    unfolding SeekTo_Index using seek_loop_here [of "w\<lparr>path := q @ [Index (i - 1)]\<rparr>"] by simp
  moreover have "SeekTo (w\<lparr>path := q @ [Key k]\<rparr>) (q @ [Key k]) =
       Returns (True, None, w\<lparr>path := q @ [Key k]\<rparr>, q @ [Key k])"
    unfolding SeekTo_Key using seek_loop_here [of "w\<lparr>path := q @ [Key k]\<rparr>"] by simp
  ultimately show ?thesis
    using again by blast
qed

text \<open>
  The document \<open>{"a":[5,6]}\<close>: \<open>SeekTo("a", 1)\<close> stops in front of \<open>6\<close>, and stays there
  when called again.
\<close>

theorem SeekTo_already_there_witness:
  "SeekTo (NewDecoder [Delim CHR ''{'', TString ''a'', Delim CHR ''['', TFloat64 ''5'',
                       TFloat64 ''6'', Delim CHR '']'', Delim CHR ''}''] EOF)
          [Key ''a'', Index 1] =
     Returns (True, None,
              \<lparr>tokens = [TFloat64 ''6'', Delim CHR '']'', Delim CHR ''}''], final = EOF,
                 path = [Key ''a'', Index 0], ctx = arrValue\<rparr>,
              [Key ''a'', Index 0])
   \<and> SeekTo \<lparr>tokens = [TFloat64 ''6'', Delim CHR '']'', Delim CHR ''}''], final = EOF,
               path = [Key ''a'', Index 0], ctx = arrValue\<rparr>
            [Key ''a'', Index 1] =
     Returns (True, None,
              \<lparr>tokens = [TFloat64 ''6'', Delim CHR '']'', Delim CHR ''}''], final = EOF,
                 path = [Key ''a'', Index 0], ctx = arrValue\<rparr>,
              [Key ''a'', Index 0])"
proof -
  have first: "SeekTo (NewDecoder [Delim CHR ''{'', TString ''a'', Delim CHR ''['', TFloat64 ''5'',
                       TFloat64 ''6'', Delim CHR '']'', Delim CHR ''}''] EOF)
          [Key ''a'', Index 1] =
     Returns (True, None,
              \<lparr>tokens = [TFloat64 ''6'', Delim CHR '']'', Delim CHR ''}''], final = EOF,
                 path = [Key ''a'', Index 0], ctx = arrValue\<rparr>,
              [Key ''a'', Index 0])"
    by code_simp
  show ?thesis
    using first SeekTo_already_there [THEN conjunct2, THEN conjunct2, THEN conjunct2, THEN mp, OF first]
    by simp
qed

text \<open>
  C10. When the argument list ends with an int \<open>i\<close>, \<open>SeekTo\<close> overwrites the last
  element of the slice it was given with \<open>i - 1\<close> before its loop starts: the loop runs
  on the overwritten slice, and the caller finds its slice changed after the call, so
  that a second call with the same slice seeks \<open>i - 2\<close>.
\<close>

theorem SeekTo_overwrites_argument:
  "SeekTo w (p @ [Index i]) =
     (case seek_loop w (p @ [Index (i - 1)]) of
        Panics \<Rightarrow> Panics
      | Returns (found, err, w') \<Rightarrow> Returns (found, err, w', p @ [Index (i - 1)]))
   \<and> (SeekTo w (p @ [Index i]) = Returns (found, err, w', p') \<longrightarrow>
        p' = p @ [Index (i - 1)] \<and> p' \<noteq> p @ [Index i]
        \<and> SeekTo w'' p' =
            (case seek_loop w'' (p @ [Index (i - 2)]) of
               Panics \<Rightarrow> Panics
             | Returns (found, err, w') \<Rightarrow> Returns (found, err, w', p @ [Index (i - 2)])))"
proof -
  have "i - 1 - 1 = i - 2" by simp
  then show ?thesis
    using SeekTo_Index [of w'' p "i - 1"] by (auto simp: SeekTo_Index split: go.splits)
qed

theorem SeekTo_overwrites_argument_witness:
  "SeekTo (NewDecoder [Delim CHR ''['', TFloat64 ''5'', TFloat64 ''6'', Delim CHR '']''] EOF)
          [Index 1] =
     Returns (True, None,
              \<lparr>tokens = [TFloat64 ''6'', Delim CHR '']''], final = EOF, path = [Index 0],
                 ctx = arrValue\<rparr>,
              [Index 0])
   \<and> [Index 0] \<noteq> [Index (1 :: go_int)]"
proof -
  have first: "SeekTo (NewDecoder [Delim CHR ''['', TFloat64 ''5'', TFloat64 ''6'', Delim CHR '']''] EOF)
          [Index 1] =
     Returns (True, None,
              \<lparr>tokens = [TFloat64 ''6'', Delim CHR '']''], final = EOF, path = [Index 0],
                 ctx = arrValue\<rparr>,
              [Index 0])"
    by code_simp
  show ?thesis
    using first
      SeekTo_overwrites_argument [where p = "[]" and i = 1 and found = True and err = None
        and w = "NewDecoder [Delim CHR ''['', TFloat64 ''5'', TFloat64 ''6'', Delim CHR '']''] EOF"
        and w' = "\<lparr>tokens = [TFloat64 ''6'', Delim CHR '']''], final = EOF, path = [Index 0],
                   ctx = arrValue\<rparr>"
        and p' = "[Index 0]" and w'' = "NewDecoder [] EOF"]
    by simp
qed

subsection \<open>Seeking to an array index\<close>









section \<open>Scanning\<close>

lemma scan_Advance:
  "scan_loop ext rootPath Advance matched u d =
     (case Token d of
        Panics \<Rightarrow> Some Panics
      | Returns (t, Some err, d') \<Rightarrow> Some (Returns (matched, Some err, u, d'))
      | Returns (t, None, d') \<Rightarrow> scan_loop ext rootPath Match matched u d')"
  by (subst scan_loop.simps) simp

lemma scan_Match:
  "scan_loop ext rootPath Match matched u d =
     (if length rootPath < length (path d) then
        (case ext (drop (length rootPath) (path d)) of
           None \<Rightarrow> scan_loop ext rootPath Advance matched u d
         | Some node \<Rightarrow>
             (case action node of
                None \<Rightarrow> scan_loop ext rootPath Advance matched u d
              | Some act \<Rightarrow>
                  (case act u d of
                     Panics \<Rightarrow> Some Panics
                   | Returns (u', d') \<Rightarrow>
                       scan_loop ext rootPath
                         (if ctx d' = arrValue \<and> json_More d' then Match else Advance) True u' d')))
      else Some (Returns (matched, None, u, d)))"
  by (subst scan_loop.simps) (simp add: Path_eq Let_def split: option.split go.split)

lemma scan_eof:
  "tokens d = [] \<Longrightarrow>
     scan_loop ext rootPath Advance matched u d = Some (Returns (matched, Some (final d), u, d))"
  by (simp add: scan_Advance Token_def json_Token_def)

text \<open>
  C1, as the code has it. When the token source reports end-of-stream during \<open>SeekTo\<close>,
  the call returns \<open>(false, nil)\<close>, and \<open>SeekTo\<close> on an input that ends with \<open>io.EOF\<close>
  never returns an error. \<open>Scan\<close> does not translate the end-of-stream: when the source
  reports it, \<open>Scan\<close> returns what it has matched so far together with \<open>io.EOF\<close> as the
  error.
\<close>

theorem end_of_stream:
  "(tokens w = [] \<and> final w = EOF \<and> path w \<noteq> q \<longrightarrow>
      seek_loop w q = Returns (False, None, w))
   \<and> (final w = EOF \<and> SeekTo w p = Returns (found, err, w', p') \<longrightarrow> err = None)
   \<and> (tokens d = [] \<and> final d = EOF \<longrightarrow>
        scan_loop ext rootPath Advance matched u d = Some (Returns (matched, Some EOF, u, d)))
   \<and> (tokens d = [] \<and> final d = EOF \<and> Scan ext u d \<noteq> Some Panics \<longrightarrow>
        Scan ext u d = Some (Returns (False, Some EOF, u, d)))"
proof -
  have seek: "seek_loop w q = Returns (False, None, w)"
    if "tokens w = []" "final w = EOF" "path w \<noteq> q"
    using that seek_loop_eof [of w q] by simp
  have noerr: "err = None" if "final w = EOF" "SeekTo w p = Returns (found, err, w', p')"
  proof (cases "p = []")
    case True
    with that show ?thesis by (simp add: SeekTo_def)
  next
    case False
    with that obtain a where "seek_loop w a = Returns (found, err, w')"
      by (auto simp: SeekTo_def Let_def split: go.splits)
    with that show ?thesis
      using seek_loop_result [of w a found err w'] by (auto split: if_splits)
  qed
  have loop: "scan_loop ext r Advance matched u d = Some (Returns (matched, Some EOF, u, d))"
    if "tokens d = []" "final d = EOF" for r matched
    using that scan_eof [of d ext r matched u] by simp
  have scan: "Scan ext u d = Some (Returns (False, Some EOF, u, d))"
    if "tokens d = []" "final d = EOF" "Scan ext u d \<noteq> Some Panics"
    using that loop by (auto simp: Scan_def Let_def split: go.splits if_splits)
  show ?thesis
    using seek noerr loop scan by (intro conjI impI) blast+
qed

theorem end_of_stream_witness:
  "seek_loop (NewDecoder [] EOF) [Key ''a''] = Returns (False, None, NewDecoder [] EOF)
   \<and> SeekTo (NewDecoder [TNil] EOF) [Key ''a''] =
       Returns (False, None, NewDecoder [] EOF, [Key ''a''])
   \<and> scan_loop no_actions [] Advance True () (NewDecoder [] EOF) =
       Some (Returns (True, Some EOF, (), NewDecoder [] EOF))
   \<and> Scan no_actions () (NewDecoder [] EOF) \<noteq> Some Panics"
proof -
  have h: "tokens (NewDecoder [] EOF) = [] \<and> final (NewDecoder [] EOF) = EOF
           \<and> path (NewDecoder [] EOF) \<noteq> [Key ''a'']"
    by (simp add: NewDecoder_def)
  have s: "SeekTo (NewDecoder [TNil] EOF) [Key ''a''] =
       Returns (False, None, NewDecoder [] EOF, [Key ''a''])"
    by code_simp
  have n: "Scan no_actions () (NewDecoder [] EOF) \<noteq> Some Panics"
    by (simp add: Scan_def Path_def NewDecoder_def inferContext_def scan_Advance Token_def
          json_Token_def)
  show ?thesis
    using h s n
      end_of_stream [where w = "NewDecoder [] EOF" and q = "[Key ''a'']" and d = "NewDecoder [] EOF"
        and ext = no_actions and rootPath = "[]" and matched = True and u = "()"]
    by simp
qed

text \<open>
  The claim as the specification states it fails for \<open>Scan\<close>: on an exhausted input
  \<open>Scan\<close> returns \<open>io.EOF\<close> as its error.
\<close>

theorem Scan_end_of_stream_counterexample:
  "Scan no_actions () (NewDecoder [] EOF) =
     Some (Returns (False, Some EOF, (), NewDecoder [] EOF))"
  by (simp add: Scan_def Path_def NewDecoder_def inferContext_def scan_Advance Token_def
        json_Token_def)

text \<open>
  C6. The root of \<open>Scan\<close> is the path at the call, its trailing index incremented once
  when that path ends with an index. After a token is consumed, \<open>Scan\<close> returns what it
  has matched so far and no error as soon as the path is not longer than the root;
  otherwise the path looked up is the current path without its first \<open>len(rootPath)\<close>
  segments.
\<close>

theorem Scan_root_and_stop:
  "Scan ext u (d\<lparr>path := []\<rparr>) = scan_loop ext [] Advance False u (d\<lparr>path := []\<rparr>)
   \<and> Scan ext u (d\<lparr>path := p @ [Key k]\<rparr>) =
       scan_loop ext (p @ [Key k]) Advance False u (d\<lparr>path := p @ [Key k]\<rparr>)
   \<and> Scan ext u (d\<lparr>path := p @ [Index i]\<rparr>) =
       scan_loop ext (p @ [Index (i + 1)]) Advance False u (d\<lparr>path := p @ [Index i]\<rparr>)
   \<and> (Token d = Returns (t, None, d') \<and> length (path d') \<le> length rootPath \<longrightarrow>
        scan_loop ext rootPath Advance matched u d = Some (Returns (matched, None, u, d')))
   \<and> (Token d = Returns (t, None, d') \<and> length rootPath < length (path d') \<longrightarrow>
        scan_loop ext rootPath Advance matched u d =
          (case ext (drop (length rootPath) (path d')) of
             None \<Rightarrow> scan_loop ext rootPath Advance matched u d'
           | Some node \<Rightarrow>
               (case action node of
                  None \<Rightarrow> scan_loop ext rootPath Advance matched u d'
                | Some act \<Rightarrow>
                    (case act u d' of
                       Panics \<Rightarrow> Some Panics
                     | Returns (u', d'') \<Rightarrow>
                         scan_loop ext rootPath
                           (if ctx d'' = arrValue \<and> json_More d'' then Match else Advance)
                           True u' d''))))"
proof -
  have root: "Scan ext u (d\<lparr>path := []\<rparr>) = scan_loop ext [] Advance False u (d\<lparr>path := []\<rparr>)"
    "Scan ext u (d\<lparr>path := p @ [Key k]\<rparr>) =
       scan_loop ext (p @ [Key k]) Advance False u (d\<lparr>path := p @ [Key k]\<rparr>)"
    "Scan ext u (d\<lparr>path := p @ [Index i]\<rparr>) =
       scan_loop ext (p @ [Index (i + 1)]) Advance False u (d\<lparr>path := p @ [Index i]\<rparr>)"
    by (simp_all add: Scan_def Let_def Path_eq inferContext_simps incTop_snoc)
  have stop: "scan_loop ext rootPath Advance matched u d = Some (Returns (matched, None, u, d'))"
    if "Token d = Returns (t, None, d')" "length (path d') \<le> length rootPath"
    using that by (simp add: scan_Advance scan_Match)
  have look: "scan_loop ext rootPath Advance matched u d =
          (case ext (drop (length rootPath) (path d')) of
             None \<Rightarrow> scan_loop ext rootPath Advance matched u d'
           | Some node \<Rightarrow>
               (case action node of
                  None \<Rightarrow> scan_loop ext rootPath Advance matched u d'
                | Some act \<Rightarrow>
                    (case act u d' of
                       Panics \<Rightarrow> Some Panics
                     | Returns (u', d'') \<Rightarrow>
                         scan_loop ext rootPath
                           (if ctx d'' = arrValue \<and> json_More d'' then Match else Advance)
                           True u' d'')))"
    if "Token d = Returns (t, None, d')" "length rootPath < length (path d')"
    using that by (simp add: scan_Advance scan_Match)
  show ?thesis
    using root stop look by (intro conjI impI) blast+
qed

text \<open>
  A decoder in front of the second element of \<open>[x,[null],null]\<close>: the scan runs over
  \<open>[null]\<close> with root \<open>[1]\<close> and stops on its closing bracket.
\<close>

theorem Scan_root_and_stop_witness:
  "Scan no_actions ()
     \<lparr>tokens = [Delim CHR ''['', TNil, Delim CHR '']'', TNil], final = EOF, path = [Index 0],
        ctx = arrValue\<rparr> =
     Some (Returns (False, None, (),
                    \<lparr>tokens = [TNil], final = EOF, path = [Index 1], ctx = arrValue\<rparr>))
   \<and> Token \<lparr>tokens = [Delim CHR '']'', TNil], final = EOF, path = [Index 1, Index 0],
              ctx = arrValue\<rparr> =
       Returns (Delim CHR '']'', None,
                \<lparr>tokens = [TNil], final = EOF, path = [Index 1], ctx = arrValue\<rparr>)
   \<and> scan_loop no_actions [Index 1] Advance False ()
         \<lparr>tokens = [Delim CHR '']'', TNil], final = EOF, path = [Index 1, Index 0],
            ctx = arrValue\<rparr> =
       Some (Returns (False, None, (),
                      \<lparr>tokens = [TNil], final = EOF, path = [Index 1], ctx = arrValue\<rparr>))"
proof -
  have run: "scan_loop no_actions [Index 1] Advance False ()
     \<lparr>tokens = [Delim CHR ''['', TNil, Delim CHR '']'', TNil], final = EOF, path = [Index 0],
        ctx = arrValue\<rparr> =
     Some (Returns (False, None, (),
                    \<lparr>tokens = [TNil], final = EOF, path = [Index 1], ctx = arrValue\<rparr>))"
    by code_simp
  have tok: "Token \<lparr>tokens = [Delim CHR '']'', TNil], final = EOF, path = [Index 1, Index 0],
              ctx = arrValue\<rparr> =
       Returns (Delim CHR '']'', None,
                \<lparr>tokens = [TNil], final = EOF, path = [Index 1], ctx = arrValue\<rparr>)"
    by code_simp
  show ?thesis
    using run tok
      Scan_root_and_stop [where ext = no_actions and u = "()" and p = "[]" and i = 0
        and d = "\<lparr>tokens = [Delim CHR ''['', TNil, Delim CHR '']'', TNil], final = EOF,
                 path = [Index 0], ctx = arrValue\<rparr>"]
      Scan_root_and_stop [where ext = no_actions and u = "()" and rootPath = "[Index 1]"
        and matched = False and t = "Delim CHR '']''"
        and d = "\<lparr>tokens = [Delim CHR '']'', TNil], final = EOF, path = [Index 1, Index 0],
                 ctx = arrValue\<rparr>"
        and d' = "\<lparr>tokens = [TNil], final = EOF, path = [Index 1], ctx = arrValue\<rparr>"]
    by simp
qed

subsection \<open>Scanning an array\<close>

text \<open>A sequence of tokens that \<open>Decode\<close> reads as one value starts a value.\<close>

lemma value_starts:
  assumes "\<forall>rest. take_value 0 [] (v @ rest) = Some (v, rest)"
  shows "\<exists>t ts. v = t # ts \<and> t \<noteq> Delim CHR '']'' \<and> t \<noteq> Delim CHR ''}''"
proof (cases v)
  case Nil
  with assms [THEN spec, of "[]"] show ?thesis by simp
next
  case (Cons t ts)
  with assms [THEN spec, of "[]"] show ?thesis
    by (auto split: if_splits)
qed





text \<open>
  An action that leaves the decoder where it is, in array context with \<open>More\<close> true, is
  looked up and run again without end: the scan does not return.
\<close>

lemma scan_idle_action:
  assumes "length rootPath < length (path d)" "ext (drop (length rootPath) (path d)) = Some node"
    "action node = Some act" "act u d = Returns (u, d)" "ctx d = arrValue" "json_More d"
  shows "scan_loop ext rootPath Match m u d = None"
proof -
  have never: "\<not> (e = ext \<and> r = rootPath \<and> l = Match \<and> u' = u \<and> d' = d)"
    if "scan_loop e r l mm u' d' = Some y" for e r l mm u' d' y
  proof (rule scan_loop.raw_induct
      [where P = "\<lambda>e r l mm u' d' y. \<not> (e = ext \<and> r = rootPath \<and> l = Match \<and> u' = u \<and> d' = d)",
       OF _ that], goal_cases)
    case (1 sl e r l mm u' d' y)
    show ?case
    proof
      assume eq: "e = ext \<and> r = rootPath \<and> l = Match \<and> u' = u \<and> d' = d"
      then have "sl ext rootPath Match True u d = Some y"
        using 1(2) assms by (simp add: Path_eq Let_def)
      then show False
        using 1(1) [of ext rootPath Match True u d y] by simp
    qed
  qed
  show ?thesis
  proof (cases "scan_loop ext rootPath Match m u d")
    case None
    then show ?thesis .
  next
    case (Some y)
    then show ?thesis using never [OF Some] by simp
  qed
qed




section \<open>Snapshots of the path\<close>









text \<open>
  \<open>Token\<close> and \<open>Decode\<close> change the decoder's path by these operations and in no other
  way; the loops of \<open>SeekTo\<close> and \<open>Scan\<close> change it through \<open>Token\<close>.
\<close>

lemma Token_path_ops:
  assumes "Token d = Returns (t', e, d')" "tokens d = t # ts"
  shows "run_ops (token_path_ops t (ctx d)) (path d) = Returns (path d')"
  using assms
  by (cases t; cases "ctx d")
     (auto simp: Token_def json_Token_def token_path_ops_def push_def
           split: go.splits if_splits)

lemma Token_path_end:
  assumes "Token d = Returns (t', e, d')" "tokens d = []"
  shows "path d' = path d"
  using assms by (simp add: Token_def json_Token_def)

lemma Decode_path_ops:
  assumes "Decode d = Returns (v, e, d')"
  shows "run_ops (decode_path_ops (ctx d)) (path d) = Returns (path d')"
  using assms
  by (cases "ctx d")
     (auto simp: Decode_def decode_path_ops_def split: go.splits dest: json_Decode_frame)



end
